theory Spec2Isabelle
  imports Complex_Main "HOL-Library.Sublist" "HOL-Library.Multiset"
begin

section \<open>Strings and paths\<close>

text \<open>
  Source: \<^verbatim>\<open>src/ghostkitty.py\<close>, class \<^verbatim>\<open>GhostKittyStemSplitter\<close>.

  Strings are \<^typ>\<open>string\<close>. \<^verbatim>\<open>str.lower\<close> and \<^verbatim>\<open>str.upper\<close> are modelled on the
  ASCII letters and leave every other character unchanged. (Python lower-cases a few
  non-ASCII code points to the ASCII letters \<^verbatim>\<open>k\<close> and \<^verbatim>\<open>i\<close>; neither letter occurs
  in a supported extension.)
\<close>

definition upper_letters :: string where
  "upper_letters = ''ABCDEFGHIJKLMNOPQRSTUVWXYZ''"

definition lower_letters :: string where
  "lower_letters = ''abcdefghijklmnopqrstuvwxyz''"

definition lower_char :: "char \<Rightarrow> char" where
  "lower_char c = (case map_of (zip upper_letters lower_letters) c of Some d \<Rightarrow> d | None \<Rightarrow> c)"

definition upper_char :: "char \<Rightarrow> char" where
  "upper_char c = (case map_of (zip lower_letters upper_letters) c of Some d \<Rightarrow> d | None \<Rightarrow> c)"

definition lower :: "string \<Rightarrow> string" where
  "lower s = map lower_char s"

definition upper :: "string \<Rightarrow> string" where
  "upper s = map upper_char s"

text \<open>
  \<^verbatim>\<open>str.rfind\<close> for a single character: the index of its last occurrence, or \<open>-1\<close>.
  The scan runs left to right and remembers the last hit.
\<close>

primrec rfind_aux :: "char \<Rightarrow> string \<Rightarrow> int \<Rightarrow> int \<Rightarrow> int" where
  "rfind_aux c [] i found = found"
| "rfind_aux c (x # xs) i found = rfind_aux c xs (i + 1) (if x = c then i else found)"

definition rfind :: "string \<Rightarrow> char \<Rightarrow> int" where
  "rfind s c = rfind_aux c s 0 (- 1)"

text \<open>
  A \<^verbatim>\<open>pathlib.Path\<close> (POSIX flavour) after parsing: the anchor (\<open>''/''\<close> for an absolute
  path, empty for a relative one) and the components. \<^verbatim>\<open>name\<close>, \<^verbatim>\<open>suffix\<close>, \<^verbatim>\<open>stem\<close> and
  \<^verbatim>\<open>parent\<close> follow pathlib of Python 3.8 to 3.13:
  \<^verbatim>\<open>i = name.rfind('.'); if 0 < i < len(name) - 1: suffix = name[i:], stem = name[:i]\<close>,
  otherwise the suffix is empty and the stem is the whole name.
\<close>

datatype path = Path (anchor: string) (parts: "string list")

definition name :: "path \<Rightarrow> string" where
  "name p = (if parts p = [] then [] else last (parts p))"

definition suffix_of :: "string \<Rightarrow> string" where
  "suffix_of n = (let i = rfind n (CHR ''.'') in
     if 0 < i \<and> i < int (length n) - 1 then drop (nat i) n else [])"

definition stem_of :: "string \<Rightarrow> string" where
  "stem_of n = (let i = rfind n (CHR ''.'') in
     if 0 < i \<and> i < int (length n) - 1 then take (nat i) n else n)"

definition path_suffix :: "path \<Rightarrow> string" where
  "path_suffix p = suffix_of (name p)"

definition stem :: "path \<Rightarrow> string" where
  "stem p = stem_of (name p)"

definition parent :: "path \<Rightarrow> path" where
  "parent p = Path (anchor p) (butlast (parts p))"

text \<open>
  The operator \<^verbatim>\<open>path / segment\<close>: the right operand is parsed, that is split at the
  separator with empty and \<^verbatim>\<open>.\<close> components dropped; an operand that starts with the
  separator replaces the left path.
\<close>

fun split_sep :: "string \<Rightarrow> string list" where
  "split_sep [] = [[]]"
| "split_sep (c # cs) =
     (if c = CHR ''/'' then [] # split_sep cs
      else (case split_sep cs of [] \<Rightarrow> [[c]] | w # ws \<Rightarrow> (c # w) # ws))"

definition parse_parts :: "string \<Rightarrow> string list" where
  "parse_parts seg = filter (\<lambda>w. w \<noteq> [] \<and> w \<noteq> ''.'') (split_sep seg)"

definition joinpath :: "path \<Rightarrow> string \<Rightarrow> path" where
  "joinpath p seg =
     (if seg \<noteq> [] \<and> hd seg = CHR ''/'' then Path ''/'' (parse_parts seg)
      else Path (anchor p) (parts p @ parse_parts seg))"

text \<open>
  \<^verbatim>\<open>Path.glob\<close> builds each result from the directory and the entry name as it is
  listed, without parsing.
\<close>

definition make_child :: "path \<Rightarrow> string \<Rightarrow> path" where
  "make_child p n = Path (anchor p) (parts p @ [n])"

section \<open>The format gate\<close>

text \<open>
  \<^verbatim>\<open>self.supported_formats\<close> is a Python set of seven strings; membership is all the
  gate uses.
\<close>

definition supported_formats :: "string set" where
  "supported_formats = {''.mp3'', ''.wav'', ''.flac'', ''.m4a'', ''.aac'', ''.ogg'', ''.wma''}"

definition is_supported_format :: "path \<Rightarrow> bool" where
  "is_supported_format file_path \<longleftrightarrow> lower (path_suffix file_path) \<in> supported_formats"

text \<open>
  The spec's words for the gate: two extensions are the same when compared
  case-insensitively if they agree after lower-casing both.
\<close>

definition same_ignoring_case :: "string \<Rightarrow> string \<Rightarrow> bool" where
  "same_ignoring_case a b \<longleftrightarrow> lower a = lower b"

section \<open>Audio data, the environment and the state\<close>

text \<open>
  Every exception raised below is a subclass of \<^verbatim>\<open>Exception\<close>. \<open>LibraryError\<close> stands for
  whatever an external library raises; \<open>BothLoadersFailed\<close> is the \<^verbatim>\<open>Exception\<close> that
  \<^verbatim>\<open>load_audio\<close> raises itself, carrying the fallback's error.
\<close>

datatype exn = LibraryError string | IndexError | ZeroDivisionError | BothLoadersFailed exn

text \<open>
  A waveform tensor of shape \<open>[channels, samples]\<close> is the list of its channels; a stems
  tensor of shape \<open>[sources, channels, samples]\<close> is a list of waveforms. Samples are only
  moved, never computed with, so \<^verbatim>\<open>.float()\<close>, \<^verbatim>\<open>.cpu()\<close> and \<^verbatim>\<open>.numpy()\<close> are the identity.
  What \<^verbatim>\<open>librosa.load(mono=False)\<close> returns is one-dimensional for a mono source and
  two-dimensional otherwise.
\<close>

type_synonym tensor = "real list list"

datatype ndarray = Array1 "real list" | Array2 "real list list"

definition shape0 :: "tensor \<Rightarrow> nat" where
  "shape0 w = length w"

definition shape1 :: "tensor \<Rightarrow> nat" where
  "shape1 w = (case w of [] \<Rightarrow> 0 | c # _ \<Rightarrow> length c)"

definition repeat_rows :: "nat \<Rightarrow> tensor \<Rightarrow> tensor" where
  "repeat_rows k w = concat (replicate k w)"

datatype model = Model string

text \<open>What \<^verbatim>\<open>sf.write\<close> is given: the data as \<open>[frames, channels]\<close>, the rate, the subtype.\<close>

datatype wav = Wav (frames: "real list list") (samplerate: nat) (subtype: string)

datatype message =
    UnsupportedFormat string | FileNotFound path | Processing string
  | ModelLoaded | ErrorLoadingModel exn | DurationInfo nat nat
  | SavingStems | Saved string | ErrorSaving string exn
  | Success path | ReadyForRemixing | ErrorProcessing string exn
  | DirectoryNotFound path | NoAudioFiles | FoundFiles nat
  | BatchItem nat nat | BatchComplete nat nat

text \<open>
  The calls that leave the program, in the order they are made: console and log output,
  and the calls into pathlib, demucs, torchaudio, librosa and soundfile.
\<close>

datatype event =
    Console message | LogWarning exn | LogError path exn
  | CallExists path | CallGlob path string
  | CallGetModel string | CallModelTo model string
  | CallTorchaudioLoad path | CallLibrosaLoad path
  | CallApplyModel model tensor string
  | CallMkdir path | CallSfWrite path wav

text \<open>
  The environment answers every external call. \<open>listdir\<close> gives the entry names of a
  directory (nothing for a path that is not a directory); \<open>formats_order\<close> is the
  order in which this interpreter iterates the set \<^verbatim>\<open>self.supported_formats\<close>, which
  Python leaves unspecified. \<open>apply_model\<close> includes moving the waveform to the device and
  dropping the batch dimension; \<open>mkdir_error\<close> and \<open>sf_write_error\<close> say whether
  \<^verbatim>\<open>mkdir(parents=True, exist_ok=True)\<close> and \<^verbatim>\<open>sf.write\<close> raise for a path.
  \<^verbatim>\<open>Path.exists\<close> returns a boolean.
\<close>

record env =
  path_exists :: "path \<Rightarrow> bool"
  listdir :: "path \<Rightarrow> string list"
  formats_order :: "string list"
  get_model :: "string \<Rightarrow> exn + model"
  model_to :: "model \<Rightarrow> string \<Rightarrow> exn option"
  torchaudio_load :: "path \<Rightarrow> exn + tensor \<times> nat"
  librosa_load :: "path \<Rightarrow> exn + ndarray \<times> nat"
  apply_model :: "model \<Rightarrow> tensor \<Rightarrow> string \<Rightarrow> exn + tensor list"
  mkdir_error :: "path \<Rightarrow> exn option"
  sf_write_error :: "path \<Rightarrow> exn option"

text \<open>
  The state: the splitter object's fields (\<^verbatim>\<open>self.model_name\<close>, \<^verbatim>\<open>self.device\<close>,
  \<^verbatim>\<open>self.model\<close>), the trace of external calls so far, and what the run has added to the
  file system (directories made, files written; a failed write records no file).
\<close>

record state =
  model_name :: string
  device :: string
  model :: "model option"
  trace :: "event list"
  dirs :: "path set"
  files :: "path \<rightharpoonup> wav"

definition emit :: "event \<Rightarrow> state \<Rightarrow> state" where
  "emit e s = s\<lparr>trace := trace s @ [e]\<rparr>"

text \<open>\<^verbatim>\<open>self.stem_names\<close>, a dict iterated in insertion order.\<close>

definition stem_names :: "(nat \<times> string) list" where
  "stem_names = [(0, ''drums''), (1, ''bass''), (2, ''other''), (3, ''vocals'')]"

section \<open>Loading\<close>

definition load_model :: "env \<Rightarrow> state \<Rightarrow> (exn + unit) \<times> state" where
  "load_model env s =
     (if model s = None then
        (let s1 = emit (CallGetModel (model_name s)) s in
         case get_model env (model_name s) of
           Inl e \<Rightarrow> (Inl e, emit (Console (ErrorLoadingModel e)) s1)
         | Inr m \<Rightarrow>
             (let s2 = s1\<lparr>model := Some m\<rparr>;
                  s3 = emit (CallModelTo m (device s)) s2 in
              case model_to env m (device s) of
                Some e \<Rightarrow> (Inl e, emit (Console (ErrorLoadingModel e)) s3)
              | None \<Rightarrow> (Inr (), emit (Console ModelLoaded) s3)))
      else (Inr (), s))"

definition load_audio :: "env \<Rightarrow> path \<Rightarrow> state \<Rightarrow> (exn + tensor \<times> nat) \<times> state" where
  "load_audio env file_path s =
     (let s1 = emit (CallTorchaudioLoad file_path) s in
      case torchaudio_load env file_path of
        Inr (waveform, sample_rate) \<Rightarrow>
          (Inr (if shape0 waveform = 1 then repeat_rows 2 waveform
                else if shape0 waveform > 2 then take 2 waveform
                else waveform, sample_rate), s1)
      | Inl e \<Rightarrow>
          (let s2 = emit (LogWarning e) s1;
               s3 = emit (CallLibrosaLoad file_path) s2 in
           case librosa_load env file_path of
             Inr (audio, sr) \<Rightarrow>
               (Inr (case audio of Array1 a \<Rightarrow> [a, a] | Array2 chans \<Rightarrow> chans, sr), s3)
           | Inl e2 \<Rightarrow> (Inl (BothLoadersFailed e2), s3)))"

section \<open>Saving\<close>

definition ancestors :: "path \<Rightarrow> path list" where
  "ancestors p = map (\<lambda>k. Path (anchor p) (take k (parts p))) [0..<length (parts p)]"

definition stem_file :: "path \<Rightarrow> string \<Rightarrow> string \<Rightarrow> path" where
  "stem_file output_dir filename_base stem_name =
     joinpath output_dir (filename_base @ ''_'' @ stem_name @ ''.wav'')"

text \<open>
  The loop of \<^verbatim>\<open>save_stems\<close> over \<^verbatim>\<open>self.stem_names.items()\<close>. \<^verbatim>\<open>stems[i]\<close> is outside the
  \<^verbatim>\<open>try\<close> and raises \<^verbatim>\<open>IndexError\<close> out of range; the write is inside it, and its
  exception is printed and dropped.
\<close>

fun save_loop ::
  "env \<Rightarrow> tensor list \<Rightarrow> nat \<Rightarrow> path \<Rightarrow> string \<Rightarrow> (nat \<times> string) list \<Rightarrow> state
     \<Rightarrow> (exn + unit) \<times> state" where
  "save_loop env stems sample_rate output_dir filename_base [] s = (Inr (), s)"
| "save_loop env stems sample_rate output_dir filename_base ((i, stem_name) # rest) s =
     (if i < length stems then
        (let stem_audio = stems ! i;
             output_file = stem_file output_dir filename_base stem_name;
             w = Wav (transpose stem_audio) sample_rate ''PCM_24'';
             s1 = emit (CallSfWrite output_file w) s in
         case sf_write_error env output_file of
           None \<Rightarrow>
             save_loop env stems sample_rate output_dir filename_base rest
               (emit (Console (Saved stem_name)) (s1\<lparr>files := (files s1)(output_file \<mapsto> w)\<rparr>))
         | Some e \<Rightarrow>
             save_loop env stems sample_rate output_dir filename_base rest
               (emit (Console (ErrorSaving stem_name e)) s1))
      else (Inl IndexError, s))"

definition save_stems ::
  "env \<Rightarrow> tensor list \<Rightarrow> nat \<Rightarrow> path \<Rightarrow> string \<Rightarrow> state \<Rightarrow> (exn + unit) \<times> state" where
  "save_stems env stems sample_rate output_dir filename_base s =
     (let s1 = emit (CallMkdir output_dir) s in
      case mkdir_error env output_dir of
        Some e \<Rightarrow> (Inl e, s1)
      | None \<Rightarrow>
          save_loop env stems sample_rate output_dir filename_base stem_names
            (s1\<lparr>dirs := dirs s1 \<union> set (ancestors output_dir) \<union> {output_dir}\<rparr>))"

section \<open>The single-file job\<close>

text \<open>
  The body of the \<^verbatim>\<open>try\<close> block of \<^verbatim>\<open>split_audio\<close>. The division that computes the
  duration raises \<^verbatim>\<open>ZeroDivisionError\<close> for a zero sample rate. \<^verbatim>\<open>self.model\<close> is set at
  the call of \<^verbatim>\<open>apply_model\<close> whenever the loading step returned; a missing model there
  would raise inside the library.
\<close>

definition split_audio_try ::
  "env \<Rightarrow> path \<Rightarrow> path \<Rightarrow> string \<Rightarrow> state \<Rightarrow> (exn + unit) \<times> state" where
  "split_audio_try env input_path output_dir filename_base s =
     (case (if model s = None then load_model env s else (Inr (), s)) of
        (Inl e, s1) \<Rightarrow> (Inl e, s1)
      | (Inr _, s1) \<Rightarrow>
          (case load_audio env input_path s1 of
             (Inl e, s2) \<Rightarrow> (Inl e, s2)
           | (Inr (waveform, sample_rate), s2) \<Rightarrow>
               if sample_rate = 0 then (Inl ZeroDivisionError, s2)
               else
                 (let s3 = emit (Console (DurationInfo (shape1 waveform) sample_rate)) s2 in
                  case model s3 of
                    None \<Rightarrow> (Inl (LibraryError ''model is None''), s3)
                  | Some m \<Rightarrow>
                      (let s4 = emit (CallApplyModel m waveform (device s3)) s3 in
                       case apply_model env m waveform (device s3) of
                         Inl e \<Rightarrow> (Inl e, s4)
                       | Inr stems \<Rightarrow>
                           (let s5 = emit (Console SavingStems) s4 in
                            case save_stems env stems sample_rate output_dir filename_base s5 of
                              (Inl e, s6) \<Rightarrow> (Inl e, s6)
                            | (Inr _, s6) \<Rightarrow>
                                (Inr (),
                                 emit (Console ReadyForRemixing)
                                   (emit (Console (Success output_dir)) s6)))))))"

text \<open>
  \<^verbatim>\<open>split_audio\<close>. The result is a sum, as for every Python call; each branch below
  returns a boolean.
\<close>

definition split_audio ::
  "env \<Rightarrow> path \<Rightarrow> path option \<Rightarrow> state \<Rightarrow> (exn + bool) \<times> state" where
  "split_audio env input_path output_dir s =
     (if \<not> is_supported_format input_path then
        (Inr False, emit (Console (UnsupportedFormat (path_suffix input_path))) s)
      else
        (let s1 = emit (CallExists input_path) s in
         if \<not> path_exists env input_path then
           (Inr False, emit (Console (FileNotFound input_path)) s1)
         else
           (let out_dir = (case output_dir of
                             None \<Rightarrow> joinpath (parent input_path) (stem input_path @ ''_stems'')
                           | Some d \<Rightarrow> d);
                filename_base = stem input_path;
                s2 = emit (Console (Processing (name input_path))) s1 in
            case split_audio_try env input_path out_dir filename_base s2 of
              (Inr _, s3) \<Rightarrow> (Inr True, s3)
            | (Inl e, s3) \<Rightarrow>
                (Inr False,
                 emit (LogError input_path e)
                   (emit (Console (ErrorProcessing (name input_path) e)) s3)))))"

section \<open>The batch job\<close>

text \<open>
  \<^verbatim>\<open>input_dir.glob("*" + ext)\<close> for an \<open>ext\<close> without wildcard characters (each of the
  fourteen patterns used is one): the entries whose name ends with \<open>ext\<close>, compared
  case-sensitively as the POSIX flavour does, in listing order.
\<close>

definition glob_star :: "env \<Rightarrow> path \<Rightarrow> string \<Rightarrow> path list" where
  "glob_star env d ext = map (make_child d) (filter (\<lambda>n. suffix ext n) (listdir env d))"

fun find_audio_files ::
  "env \<Rightarrow> path \<Rightarrow> string list \<Rightarrow> path list \<Rightarrow> state \<Rightarrow> path list \<times> state" where
  "find_audio_files env input_dir [] audio_files s = (audio_files, s)"
| "find_audio_files env input_dir (ext # exts) audio_files s =
     (let s1 = emit (CallGlob input_dir (''*'' @ ext)) s;
          audio_files1 = audio_files @ glob_star env input_dir ext;
          s2 = emit (CallGlob input_dir (''*'' @ upper ext)) s1;
          audio_files2 = audio_files1 @ glob_star env input_dir (upper ext)
      in find_audio_files env input_dir exts audio_files2 s2)"



text \<open>
  An interpreter's iteration order lists each element of the set once.
\<close>

definition order_ok :: "env \<Rightarrow> bool" where
  "order_ok env \<longleftrightarrow> distinct (formats_order env) \<and> set (formats_order env) = supported_formats"

section \<open>Observing a run\<close>

text \<open>
  What a run adds to the trace, the paths it hands to \<^verbatim>\<open>sf.write\<close>, and the four paths
  that \<^verbatim>\<open>save_stems\<close> derives from an output directory and a base name.
\<close>

definition new_events :: "state \<Rightarrow> state \<Rightarrow> event list" where
  "new_events s s' = drop (length (trace s)) (trace s')"

definition written_paths :: "event list \<Rightarrow> path list" where
  "written_paths evs = concat (map (\<lambda>e. case e of CallSfWrite q w \<Rightarrow> [q] | _ \<Rightarrow> []) evs)"

definition stem_paths :: "path \<Rightarrow> string \<Rightarrow> path list" where
  "stem_paths output_dir filename_base =
     map (\<lambda>(i, stem_name). stem_file output_dir filename_base stem_name) stem_names"

fun quiet :: "event \<Rightarrow> bool" where
  "quiet (CallMkdir d) = False"
| "quiet (CallSfWrite q w) = False"
| "quiet (CallGlob d pat) = False"
| "quiet (Console (BatchItem i n)) = False"
| "quiet (Console (BatchComplete i n)) = False"
| "quiet e = True"

fun job_event :: "path \<Rightarrow> string \<Rightarrow> event \<Rightarrow> bool" where
  "job_event od base (CallMkdir d) = (d = od)"
| "job_event od base (CallSfWrite q w) = (q \<in> set (stem_paths od base))"
| "job_event od base e = quiet e"

definition run :: "(event \<Rightarrow> bool) \<Rightarrow> state \<Rightarrow> state \<Rightarrow> bool" where
  "run P s s' \<longleftrightarrow> (\<exists>evs. trace s' = trace s @ evs \<and> (\<forall>e \<in> set evs. P e))"

text \<open>The paths the saving loop visits for a list of (index, stem name) pairs.\<close>

definition loop_paths :: "path \<Rightarrow> string \<Rightarrow> (nat \<times> string) list \<Rightarrow> path list" where
  "loop_paths od base names = map (\<lambda>(i, n). stem_file od base n) names"

text \<open>
  For the batch: the progress announcements \<^verbatim>\<open>[i/n]\<close> found in a trace; a valid audio
  file, one of a supported format that exists and that at least one of the two decoders
  reads; the events of a batch, which either produce no output file or belong to the job
  of one of the enumerated files; and the shape of a glob pattern's tail, a dot followed
  by characters other than the dot.
\<close>

definition batch_items :: "event list \<Rightarrow> (nat \<times> nat) list" where
  "batch_items evs = concat (map (\<lambda>e. case e of Console (BatchItem k n) \<Rightarrow> [(k, n)] | _ \<Rightarrow> []) evs)"


fun no_output :: "event \<Rightarrow> bool" where
  "no_output (CallMkdir d) = False"
| "no_output (CallSfWrite q w) = False"
| "no_output e = True"

definition batch_event :: "path \<Rightarrow> path list \<Rightarrow> event \<Rightarrow> bool" where
  "batch_event od fs e \<longleftrightarrow>
     no_output e \<or> (\<exists>f \<in> set fs. job_event (joinpath od (stem f)) (stem f) e)"

definition dot_pattern :: "string \<Rightarrow> bool" where
  "dot_pattern P \<longleftrightarrow> (case P of [] \<Rightarrow> False | c # body \<Rightarrow> c = CHR ''.'' \<and> body \<noteq> [] \<and> CHR ''.'' \<notin> set body)"

section \<open>A concrete environment\<close>

text \<open>
  A directory \<^verbatim>\<open>music\<close> with six entries. Every path exists except \<^verbatim>\<open>gone.mp3\<close>;
  torchaudio cannot decode \<^verbatim>\<open>c.WAV\<close> and \<^verbatim>\<open>f.wav\<close> and reads every other file as a mono
  source of three samples; librosa cannot decode \<^verbatim>\<open>f.wav\<close> and reads every other file as
  a three-channel source of two samples; the separation model returns four stems shaped
  like its input; writing \<^verbatim>\<open>a_bass.wav\<close> fails.
\<close>

definition studio_env :: env where
  "studio_env = \<lparr> path_exists = (\<lambda>p. name p \<noteq> ''gone.mp3''),
     listdir = (\<lambda>p. [''a.mp3'', ''b.Mp3'', ''c.WAV'', ''d.txt'', ''e.flac'', ''f.wav'']),
     formats_order = [''.mp3'', ''.wav'', ''.flac'', ''.m4a'', ''.aac'', ''.ogg'', ''.wma''],
     get_model = (\<lambda>n. Inr (Model n)), model_to = (\<lambda>m d. None),
     torchaudio_load = (\<lambda>p. if name p = ''c.WAV'' \<or> name p = ''f.wav''
                              then Inl (LibraryError ''backend'')
                              else Inr ([[1, 2, 3]], 44100)),
     librosa_load = (\<lambda>p. if name p = ''f.wav'' then Inl (LibraryError ''codec'')
                           else Inr (Array2 [[1, 2], [3, 4], [5, 6]], 8000)),
     apply_model = (\<lambda>m w d. Inr [w, w, w, w]),
     mkdir_error = (\<lambda>p. None),
     sf_write_error = (\<lambda>p. if name p = ''a_bass.wav'' then Some (LibraryError ''disk'') else None) \<rparr>"

definition fresh :: state where
  "fresh = \<lparr> model_name = ''htdemucs'', device = ''cpu'', model = None, trace = [],
     dirs = {}, files = Map.empty \<rparr>"

section \<open>Properties of the format gate\<close>

lemma supported_formats_lower:
  "e \<in> supported_formats \<Longrightarrow> lower e = e"
  by (auto simp: supported_formats_def lower_def lower_char_def upper_letters_def lower_letters_def)

text \<open>
  Claim C4. The format gate accepts a path if and only if its extension (pathlib's
  suffix of the path), compared case-insensitively, is one of the seven supported
  extensions \<^verbatim>\<open>.mp3 .wav .flac .m4a .aac .ogg .wma\<close>; every other extension is rejected.
\<close>

theorem is_supported_format_iff:
  "is_supported_format p \<longleftrightarrow>
     (\<exists>e \<in> {''.mp3'', ''.wav'', ''.flac'', ''.m4a'', ''.aac'', ''.ogg'', ''.wma''}.
        same_ignoring_case (path_suffix p) e)"
proof
  assume "is_supported_format p"
  then have mem: "lower (path_suffix p) \<in> supported_formats"
    by (simp add: is_supported_format_def)
  then have "lower (lower (path_suffix p)) = lower (path_suffix p)"
    by (rule supported_formats_lower)
  then have "same_ignoring_case (path_suffix p) (lower (path_suffix p))"
    by (simp add: same_ignoring_case_def)
  with mem show "\<exists>e \<in> {''.mp3'', ''.wav'', ''.flac'', ''.m4a'', ''.aac'', ''.ogg'', ''.wma''}.
        same_ignoring_case (path_suffix p) e"
    unfolding supported_formats_def by blast
next
  assume "\<exists>e \<in> {''.mp3'', ''.wav'', ''.flac'', ''.m4a'', ''.aac'', ''.ogg'', ''.wma''}.
        same_ignoring_case (path_suffix p) e"
  then obtain e where e: "e \<in> supported_formats" and same: "same_ignoring_case (path_suffix p) e"
    unfolding supported_formats_def by blast
  from e have "lower e = e" by (rule supported_formats_lower)
  with same have "lower (path_suffix p) = e"
    by (simp add: same_ignoring_case_def)
  with e show "is_supported_format p"
    by (simp add: is_supported_format_def)
qed

lemmas path_eval = name_def suffix_of_def stem_of_def path_suffix_def stem_def rfind_def
  lower_def upper_def lower_char_def upper_char_def upper_letters_def lower_letters_def

theorem is_supported_format_iff_witness:
  "is_supported_format (Path [] [''Song.MP3'']) \<and> \<not> is_supported_format (Path [] [''notes.txt''])"
  using is_supported_format_iff [of "Path [] [''Song.MP3'']"]
        is_supported_format_iff [of "Path [] [''notes.txt'']"]
  by (simp add: same_ignoring_case_def path_eval)

section \<open>Properties of the loader\<close>

lemma load_audio_primary_two_channels:
  "torchaudio_load env p = Inr (w, sr) \<Longrightarrow> 1 \<le> shape0 w \<Longrightarrow>
   \<exists>w'. fst (load_audio env p s) = Inr (w', sr) \<and> shape0 w' = 2 \<and> shape1 w' = shape1 w"
  by (cases w) (auto simp: load_audio_def emit_def Let_def shape0_def shape1_def repeat_rows_def
      numeral_2_eq_2 not_less le_Suc_eq split: list.splits)

text \<open>
  Claim C2. The buffer returned by \<^verbatim>\<open>load_audio\<close> should have exactly two channels on
  the primary and on the fallback decode path. The primary path does so
  (\<open>load_audio_primary_two_channels\<close>); the fallback path only duplicates a mono source:
  for a three-channel source that torchaudio fails to decode, the returned buffer keeps
  its three channels.
\<close>

theorem load_audio_fallback_three_channels:
  "fst (load_audio studio_env (Path [] [''music'', ''c.WAV'']) fresh) =
     Inr ([[1, 2], [3, 4], [5, 6]], 8000)
   \<and> shape0 [[1, 2], [3, 4], [5, 6]] = 3"
  by (simp add: load_audio_def studio_env_def fresh_def name_def emit_def shape0_def)

text \<open>
  Claim C7. When the primary decode raises, \<^verbatim>\<open>load_audio\<close> makes exactly one fallback
  attempt with librosa (the trace grows by the torchaudio call, the logged warning and one
  librosa call); if the fallback succeeds the audio is returned, with a mono source
  duplicated; if it fails too the error is raised. Conversely \<^verbatim>\<open>load_audio\<close> raises only
  when both decoders have failed.
\<close>

theorem load_audio_fallback:
  "(torchaudio_load env p = Inl e \<longrightarrow>
      trace (snd (load_audio env p s)) =
        trace s @ [CallTorchaudioLoad p, LogWarning e, CallLibrosaLoad p]
      \<and> (\<forall>audio sr. librosa_load env p = Inr (audio, sr) \<longrightarrow>
            fst (load_audio env p s) =
              Inr (case audio of Array1 a \<Rightarrow> [a, a] | Array2 chans \<Rightarrow> chans, sr))
      \<and> (\<forall>e2. librosa_load env p = Inl e2 \<longrightarrow>
            fst (load_audio env p s) = Inl (BothLoadersFailed e2)))
   \<and> (\<forall>x. fst (load_audio env p s) = Inl x \<longrightarrow>
          (\<exists>e1. torchaudio_load env p = Inl e1) \<and> (\<exists>e2. librosa_load env p = Inl e2))"
  by (auto simp: load_audio_def emit_def Let_def split: sum.splits prod.splits)

theorem load_audio_fallback_witness:
  "torchaudio_load studio_env (Path [] [''c.WAV'']) = Inl (LibraryError ''backend'')
   \<and> trace (snd (load_audio studio_env (Path [] [''c.WAV'']) fresh)) =
       [CallTorchaudioLoad (Path [] [''c.WAV'']), LogWarning (LibraryError ''backend''),
        CallLibrosaLoad (Path [] [''c.WAV''])]
   \<and> fst (load_audio studio_env (Path [] [''c.WAV'']) fresh) =
       Inr ([[1, 2], [3, 4], [5, 6]], 8000)"
  using load_audio_fallback [of studio_env "Path [] [''c.WAV'']" "LibraryError ''backend''" fresh]
  by (simp add: studio_env_def fresh_def name_def)

section \<open>Properties of the single-file job\<close>



section \<open>Traces of the operations\<close>

lemma run_refl: "run P s s"
  by (simp add: run_def)

lemma run_emit: "run P s0 s \<Longrightarrow> P e \<Longrightarrow> run P s0 (emit e s)"
  by (auto simp: run_def emit_def)

lemma run_trans: "run P s s' \<Longrightarrow> run P s' s'' \<Longrightarrow> run P s s''"
  by (auto simp: run_def)

lemma run_mono: "run P s s' \<Longrightarrow> (\<And>e. P e \<Longrightarrow> Q e) \<Longrightarrow> run Q s s'"
  by (auto simp: run_def)

lemma run_fields [simp]:
  "run P s0 (s\<lparr>model := m\<rparr>) = run P s0 s"
  "run P s0 (s\<lparr>files := f\<rparr>) = run P s0 s"
  "run P s0 (s\<lparr>dirs := d\<rparr>) = run P s0 s"
  by (simp_all add: run_def)

lemma run_new_events:
  "run P s s' \<Longrightarrow> trace s' = trace s @ new_events s s' \<and> (\<forall>e \<in> set (new_events s s'). P e)"
  by (auto simp: run_def new_events_def)

lemma new_events_append: "trace s' = trace s @ evs \<Longrightarrow> new_events s s' = evs"
  by (simp add: new_events_def)

lemma quiet_job_event: "quiet e \<Longrightarrow> job_event od base e"
  by (cases "(od, base, e)" rule: job_event.cases) auto

lemma written_paths_simps [simp]:
  "written_paths [] = []"
  "written_paths (xs @ ys) = written_paths xs @ written_paths ys"
  "written_paths (CallSfWrite q w # xs) = q # written_paths xs"
  "written_paths (Console m # xs) = written_paths xs"
  by (simp_all add: written_paths_def)

lemma written_paths_quiet: "\<forall>e \<in> set evs. quiet e \<Longrightarrow> written_paths evs = []"
proof (induction evs)
  case Nil
  then show ?case by simp
next
  case (Cons e evs)
  then have "quiet e" by simp
  then have "(case e of CallSfWrite q w \<Rightarrow> [q] | _ \<Rightarrow> []) = []"
    by (cases e) auto
  with Cons show ?case by (simp add: written_paths_def)
qed

subsection \<open>Loading\<close>

lemma load_model_run:
  "run P s0 s \<Longrightarrow> load_model env s = (r, s') \<Longrightarrow> (\<And>e. quiet e \<Longrightarrow> P e) \<Longrightarrow> run P s0 s'"
  by (auto simp: load_model_def Let_def intro!: run_emit split: if_splits sum.splits option.splits)

lemma load_audio_run:
  "run P s0 s \<Longrightarrow> load_audio env p s = (r, s') \<Longrightarrow> (\<And>e. quiet e \<Longrightarrow> P e) \<Longrightarrow> run P s0 s'"
  by (auto simp: load_audio_def Let_def intro!: run_emit split: if_splits sum.splits option.splits prod.splits)

lemma emit_fields [simp]:
  "model (emit e s) = model s" "device (emit e s) = device s" "model_name (emit e s) = model_name s"
  "files (emit e s) = files s" "dirs (emit e s) = dirs s" "trace (emit e s) = trace s @ [e]"
  by (simp_all add: emit_def)

lemma load_audio_fields:
  "load_audio env p s = (r, s') \<Longrightarrow>
     model s' = model s \<and> device s' = device s \<and> files s' = files s \<and> dirs s' = dirs s
     \<and> model_name s' = model_name s"
  by (auto simp: load_audio_def Let_def split: sum.splits prod.splits)

lemma load_audio_fst: "fst (load_audio env p s) = fst (load_audio env p s0)"
  by (auto simp: load_audio_def Let_def split: sum.splits prod.splits)

lemma load_model_fields:
  "load_model env s = (r, s') \<Longrightarrow>
     device s' = device s \<and> files s' = files s \<and> dirs s' = dirs s \<and> model_name s' = model_name s
     \<and> (r = Inr () \<longrightarrow> model s' \<noteq> None)"
  by (auto simp: load_model_def Let_def split: if_splits sum.splits option.splits)


subsection \<open>Saving\<close>

lemma loop_paths_simps [simp]:
  "loop_paths od base [] = []"
  "loop_paths od base ((i, n) # rest) = stem_file od base n # loop_paths od base rest"
  by (simp_all add: loop_paths_def)

lemma save_loop_trace:
  "save_loop env stems sr od base names s = (r, s') \<Longrightarrow>
   \<exists>evs. trace s' = trace s @ evs
     \<and> (\<forall>e \<in> set evs. (\<exists>q w. e = CallSfWrite q w \<and> q \<in> set (loop_paths od base names)) \<or> quiet e)
     \<and> prefix (written_paths evs) (loop_paths od base names)
     \<and> (r = Inr () \<longrightarrow> written_paths evs = loop_paths od base names
           \<and> (\<forall>(i, n) \<in> set names. i < length stems
                \<and> CallSfWrite (stem_file od base n) (Wav (transpose (stems ! i)) sr ''PCM_24'') \<in> set evs))"
proof (induction names arbitrary: s)
  case Nil
  then show ?case by simp
next
  case (Cons x rest)
  obtain i n where x: "x = (i, n)" by (cases x)
  show ?case
  proof (cases "i < length stems")
    case False
    with Cons.prems x show ?thesis by auto
  next
    case True
    define w where "w = Wav (transpose (stems ! i)) sr ''PCM_24''"
    define q where "q = stem_file od base n"
    define s1 where "s1 = emit (CallSfWrite q w) s"
    define s2 where "s2 = (case sf_write_error env q of
        None \<Rightarrow> emit (Console (Saved n)) (s1\<lparr>files := (files s1)(q \<mapsto> w)\<rparr>)
      | Some e \<Rightarrow> emit (Console (ErrorSaving n e)) s1)"
    have step: "save_loop env stems sr od base rest s2 = (r, s')"
      using Cons.prems True x
      by (simp add: Let_def w_def q_def s1_def s2_def split: option.splits)
    obtain m where tr2: "trace s2 = trace s @ [CallSfWrite q w, Console m]" and qm: "quiet (Console m)"
      by (cases "sf_write_error env q") (auto simp: s2_def s1_def)
    from Cons.IH [OF step] obtain evs where
      evs: "trace s' = trace s2 @ evs"
        "\<forall>e \<in> set evs. (\<exists>q w. e = CallSfWrite q w \<and> q \<in> set (loop_paths od base rest)) \<or> quiet e"
        "prefix (written_paths evs) (loop_paths od base rest)"
        "r = Inr () \<longrightarrow> written_paths evs = loop_paths od base rest
           \<and> (\<forall>(i, n) \<in> set rest. i < length stems
                \<and> CallSfWrite (stem_file od base n) (Wav (transpose (stems ! i)) sr ''PCM_24'') \<in> set evs)"
      by blast
    let ?evs = "[CallSfWrite q w, Console m] @ evs"
    have "trace s' = trace s @ ?evs" using evs(1) tr2 by simp
    moreover have "\<forall>e \<in> set ?evs. (\<exists>q w. e = CallSfWrite q w \<and> q \<in> set (loop_paths od base (x # rest))) \<or> quiet e"
      using evs(2) qm x by (auto simp: q_def)
    moreover have "prefix (written_paths ?evs) (loop_paths od base (x # rest))"
      using evs(3) x by (simp add: q_def)
    moreover have "r = Inr () \<longrightarrow> written_paths ?evs = loop_paths od base (x # rest)
           \<and> (\<forall>(i, n) \<in> set (x # rest). i < length stems
                \<and> CallSfWrite (stem_file od base n) (Wav (transpose (stems ! i)) sr ''PCM_24'') \<in> set ?evs)"
      using evs(4) x True by (auto simp: q_def w_def)
    ultimately show ?thesis by blast
  qed
qed

lemma save_loop_fields:
  "save_loop env stems sr od base names s = (r, s') \<Longrightarrow>
     model s' = model s \<and> device s' = device s \<and> dirs s' = dirs s \<and> model_name s' = model_name s"
  by (induction names arbitrary: s)
     (auto simp: Let_def split: if_splits option.splits)

lemma save_loop_files_other:
  "save_loop env stems sr od base names s = (r, s') \<Longrightarrow> q \<notin> set (loop_paths od base names) \<Longrightarrow>
     files s' q = files s q"
  by (induction names arbitrary: s)
     (auto simp: Let_def split: if_splits option.splits)

lemma save_loop_files:
  "save_loop env stems sr od base names s = (Inr (), s') \<Longrightarrow> distinct (loop_paths od base names) \<Longrightarrow>
   (i, n) \<in> set names \<Longrightarrow> sf_write_error env (stem_file od base n) = None \<Longrightarrow>
     files s' (stem_file od base n) = Some (Wav (transpose (stems ! i)) sr ''PCM_24'')"
proof (induction names arbitrary: s)
  case Nil
  then show ?case by simp
next
  case (Cons x rest)
  obtain j k where x: "x = (j, k)" by (cases x)
  from Cons.prems(1) x have j: "j < length stems"
    by (auto split: if_splits)
  define w where "w = Wav (transpose (stems ! j)) sr ''PCM_24''"
  define q where "q = stem_file od base k"
  define s1 where "s1 = emit (CallSfWrite q w) s"
  define s2 where "s2 = (case sf_write_error env q of
      None \<Rightarrow> emit (Console (Saved k)) (s1\<lparr>files := (files s1)(q \<mapsto> w)\<rparr>)
    | Some e \<Rightarrow> emit (Console (ErrorSaving k e)) s1)"
  have step: "save_loop env stems sr od base rest s2 = (Inr (), s')"
    using Cons.prems(1) j x
    by (simp add: Let_def w_def q_def s1_def s2_def split: option.splits)
  from Cons.prems(2) x have dist: "distinct (loop_paths od base rest)"
    and notin: "q \<notin> set (loop_paths od base rest)"
    by (simp_all add: q_def)
  show ?case
  proof (cases "(i, n) \<in> set rest")
    case True
    from Cons.IH [OF step dist True Cons.prems(4)] show ?thesis .
  next
    case False
    with Cons.prems(3) x have eq: "i = j" "n = k" by auto
    have "files s' q = files s2 q"
      using save_loop_files_other [OF step notin] .
    moreover have "files s2 q = Some w"
      using Cons.prems(4) eq by (simp add: s2_def s1_def q_def)
    ultimately show ?thesis using eq by (simp add: q_def w_def)
  qed
qed


lemma written_paths_Cons:
  "written_paths (e # xs) = (case e of CallSfWrite q w \<Rightarrow> [q] | _ \<Rightarrow> []) @ written_paths xs"
  by (simp add: written_paths_def)

lemma stem_paths_loop: "stem_paths od base = loop_paths od base stem_names"
  by (simp add: stem_paths_def loop_paths_def)

lemma save_stems_shape:
  "save_stems env stems sr od base s = (r, s') \<Longrightarrow>
   \<exists>evs. trace s' = trace s @ evs \<and> (\<forall>e \<in> set evs. job_event od base e)
     \<and> prefix (written_paths evs) (stem_paths od base)
     \<and> (r = Inr () \<longrightarrow> written_paths evs = stem_paths od base \<and> od \<in> dirs s'
           \<and> (\<forall>(i, n) \<in> set stem_names. i < length stems
                \<and> CallSfWrite (stem_file od base n) (Wav (transpose (stems ! i)) sr ''PCM_24'') \<in> set evs))"
proof (cases "mkdir_error env od")
  case (Some e)
  assume "save_stems env stems sr od base s = (r, s')"
  with Some have "r = Inl e" "trace s' = trace s @ [CallMkdir od]"
    by (auto simp: save_stems_def Let_def)
  then show ?thesis by (simp add: written_paths_Cons)
next
  case None
  define s1 where "s1 = (emit (CallMkdir od) s)\<lparr>dirs := dirs (emit (CallMkdir od) s) \<union> set (ancestors od) \<union> {od}\<rparr>"
  assume "save_stems env stems sr od base s = (r, s')"
  with None have loop: "save_loop env stems sr od base stem_names s1 = (r, s')"
    by (simp add: save_stems_def Let_def s1_def)
  from save_loop_trace [OF loop] obtain evs where
    evs: "trace s' = trace s1 @ evs"
      "\<forall>e \<in> set evs. (\<exists>q w. e = CallSfWrite q w \<and> q \<in> set (loop_paths od base stem_names)) \<or> quiet e"
      "prefix (written_paths evs) (loop_paths od base stem_names)"
      "r = Inr () \<longrightarrow> written_paths evs = loop_paths od base stem_names
           \<and> (\<forall>(i, n) \<in> set stem_names. i < length stems
                \<and> CallSfWrite (stem_file od base n) (Wav (transpose (stems ! i)) sr ''PCM_24'') \<in> set evs)"
    by blast
  have dirs: "od \<in> dirs s'"
    using save_loop_fields [OF loop] by (simp add: s1_def)
  have "trace s' = trace s @ (CallMkdir od # evs)"
    using evs(1) by (simp add: s1_def)
  moreover have "\<forall>e \<in> set (CallMkdir od # evs). job_event od base e"
    using evs(2) by (auto simp: stem_paths_loop quiet_job_event)
  moreover have "prefix (written_paths (CallMkdir od # evs)) (stem_paths od base)"
    using evs(3) by (simp add: written_paths_Cons stem_paths_loop)
  moreover have "r = Inr () \<longrightarrow> written_paths (CallMkdir od # evs) = stem_paths od base \<and> od \<in> dirs s'
           \<and> (\<forall>(i, n) \<in> set stem_names. i < length stems
                \<and> CallSfWrite (stem_file od base n) (Wav (transpose (stems ! i)) sr ''PCM_24'')
                     \<in> set (CallMkdir od # evs))"
    using evs(4) dirs by (auto simp: written_paths_Cons stem_paths_loop)
  ultimately show ?thesis by blast
qed

lemma save_stems_fields:
  "save_stems env stems sr od base s = (r, s') \<Longrightarrow>
     model s' = model s \<and> device s' = device s \<and> model_name s' = model_name s"
  by (auto simp: save_stems_def Let_def split: option.splits dest!: save_loop_fields)

lemma save_stems_files_other:
  "save_stems env stems sr od base s = (r, s') \<Longrightarrow> q \<notin> set (stem_paths od base) \<Longrightarrow>
     files s' q = files s q"
  by (auto simp: save_stems_def Let_def stem_paths_loop split: option.splits
      dest!: save_loop_files_other)

lemma save_stems_files:
  "save_stems env stems sr od base s = (Inr (), s') \<Longrightarrow> distinct (stem_paths od base) \<Longrightarrow>
   (i, n) \<in> set stem_names \<Longrightarrow> sf_write_error env (stem_file od base n) = None \<Longrightarrow>
     files s' (stem_file od base n) = Some (Wav (transpose (stems ! i)) sr ''PCM_24'')"
  by (auto simp: save_stems_def Let_def stem_paths_loop split: option.splits
      dest!: save_loop_files)

subsection \<open>The guarded body of the job\<close>

lemma split_audio_try_shape:
  "(\<exists>e s'. split_audio_try env p od base s = (Inl e, s') \<and> run quiet s s'
        \<and> files s' = files s \<and> dirs s' = dirs s)
   \<or> (\<exists>m w sr stems s5 r s6. run quiet s s5 \<and> files s5 = files s \<and> dirs s5 = dirs s
        \<and> fst (load_audio env p s) = Inr (w, sr)
        \<and> apply_model env m w (device s) = Inr stems
        \<and> save_stems env stems sr od base s5 = (r, s6)
        \<and> split_audio_try env p od base s =
            (case r of Inl e \<Rightarrow> (Inl e, s6)
             | Inr u \<Rightarrow> (Inr (), emit (Console ReadyForRemixing) (emit (Console (Success od)) s6))))"
proof -
  obtain r1 s1 where lm: "(if model s = None then load_model env s else (Inr (), s)) = (r1, s1)"
    by fastforce
  have run1: "run quiet s s1"
    using lm by (auto split: if_splits intro: load_model_run run_refl)
  have f1: "files s1 = files s \<and> dirs s1 = dirs s \<and> device s1 = device s"
    using lm by (auto split: if_splits dest: load_model_fields)
  show ?thesis
  proof (cases r1)
    case (Inl e)
    with lm have "split_audio_try env p od base s = (Inl e, s1)"
      by (simp add: split_audio_try_def)
    with run1 f1 show ?thesis by blast
  next
    case (Inr u)
    obtain r2 s2 where la: "load_audio env p s1 = (r2, s2)" by fastforce
    have run2: "run quiet s s2"
      using load_audio_run [OF run1 la] by simp
    have f2: "files s2 = files s \<and> dirs s2 = dirs s \<and> device s2 = device s \<and> model s2 = model s1"
      using load_audio_fields [OF la] f1 by simp
    show ?thesis
    proof (cases r2)
      case (Inl e)
      with lm Inr la have "split_audio_try env p od base s = (Inl e, s2)"
        by (simp add: split_audio_try_def)
      with run2 f2 show ?thesis by blast
    next
      case r2: (Inr ws)
      obtain w sr where ws: "ws = (w, sr)" by (cases ws)
      have fst_la: "fst (load_audio env p s) = Inr (w, sr)"
        using la r2 ws load_audio_fst [of env p s s1] by simp
      show ?thesis
      proof (cases "sr = 0")
        case True
        with lm Inr la r2 ws have "split_audio_try env p od base s = (Inl ZeroDivisionError, s2)"
          by (simp add: split_audio_try_def)
        with run2 f2 show ?thesis by blast
      next
        case sr: False
        define s3 where "s3 = emit (Console (DurationInfo (shape1 w) sr)) s2"
        have run3: "run quiet s s3"
          unfolding s3_def by (rule run_emit [OF run2]) simp
        show ?thesis
        proof (cases "model s2")
          case None
          with lm Inr la r2 ws sr have
            "split_audio_try env p od base s = (Inl (LibraryError ''model is None''), s3)"
            by (simp add: split_audio_try_def Let_def s3_def)
          with run3 f2 show ?thesis by (auto simp: s3_def)
        next
          case (Some m)
          define s4 where "s4 = emit (CallApplyModel m w (device s3)) s3"
          have run4: "run quiet s s4"
            unfolding s4_def by (rule run_emit [OF run3]) simp
          show ?thesis
          proof (cases "apply_model env m w (device s3)")
            case (Inl e)
            with lm Inr la r2 ws sr Some have "split_audio_try env p od base s = (Inl e, s4)"
              by (simp add: split_audio_try_def Let_def s3_def s4_def)
            with run4 f2 show ?thesis by (auto simp: s3_def s4_def)
          next
            case am: (Inr stems)
            define s5 where "s5 = emit (Console SavingStems) s4"
            have run5: "run quiet s s5"
              unfolding s5_def by (rule run_emit [OF run4]) simp
            obtain r s6 where sv: "save_stems env stems sr od base s5 = (r, s6)" by fastforce
            have res: "split_audio_try env p od base s =
                (case r of Inl e \<Rightarrow> (Inl e, s6)
                 | Inr u \<Rightarrow> (Inr (), emit (Console ReadyForRemixing) (emit (Console (Success od)) s6)))"
              using lm Inr la r2 ws sr Some am sv
              by (simp add: split_audio_try_def Let_def s3_def s4_def s5_def)
            have "files s5 = files s \<and> dirs s5 = dirs s"
              using f2 by (simp add: s5_def s4_def s3_def)
            moreover have "apply_model env m w (device s) = Inr stems"
              using am f2 by (simp add: s3_def)
            ultimately show ?thesis
              using run5 fst_la sv res by blast
          qed
        qed
      qed
    qed
  qed
qed

subsection \<open>Paths\<close>

lemma split_sep_plain: "CHR ''/'' \<notin> set x \<Longrightarrow> split_sep x = [x]"
  by (induction x) auto

lemma joinpath_plain:
  "CHR ''/'' \<notin> set x \<Longrightarrow> x \<noteq> [] \<Longrightarrow> x \<noteq> ''.'' \<Longrightarrow> joinpath p x = make_child p x"
  by (cases x) (auto simp: joinpath_def make_child_def parse_parts_def split_sep_plain)

lemma stem_of_subset: "set (stem_of n) \<subseteq> set n"
  by (auto simp: stem_of_def Let_def dest: in_set_takeD)

lemma stem_no_slash: "CHR ''/'' \<notin> set (name p) \<Longrightarrow> CHR ''/'' \<notin> set (stem p)"
  using stem_of_subset [of "name p"] by (auto simp: stem_def)

lemma stem_file_plain:
  assumes "CHR ''/'' \<notin> set base" "CHR ''/'' \<notin> set n"
  shows "stem_file od base n = make_child od (base @ ''_'' @ n @ ''.wav'')"
proof -
  have "length (base @ ''_'' @ n @ ''.wav'') \<noteq> length ''.''" by simp
  then have "base @ ''_'' @ n @ ''.wav'' \<noteq> ''.''" by metis
  moreover have "CHR ''/'' \<notin> set (base @ ''_'' @ n @ ''.wav'')" using assms by simp
  ultimately show ?thesis
    unfolding stem_file_def by (intro joinpath_plain) simp_all
qed

lemma stem_paths_plain:
  assumes "CHR ''/'' \<notin> set base"
  shows "stem_paths od base =
     [make_child od (base @ ''_drums.wav''), make_child od (base @ ''_bass.wav''),
      make_child od (base @ ''_other.wav''), make_child od (base @ ''_vocals.wav'')]"
  using assms by (simp add: stem_paths_def stem_names_def stem_file_plain)

lemma stem_paths_distinct:
  "CHR ''/'' \<notin> set base \<Longrightarrow> distinct (stem_paths od base)"
  by (simp add: stem_paths_plain make_child_def)

subsection \<open>The whole job\<close>

lemma split_audio_True:
  assumes ok: "split_audio env p od s = (Inr True, s')"
    and out: "out = (case od of None \<Rightarrow> joinpath (parent p) (stem p @ ''_stems'') | Some d \<Rightarrow> d)"
  shows "is_supported_format p \<and> path_exists env p
     \<and> (\<exists>m w sr stems s5 s6. run quiet s s5 \<and> files s5 = files s \<and> dirs s5 = dirs s
          \<and> fst (load_audio env p s) = Inr (w, sr)
          \<and> apply_model env m w (device s) = Inr stems
          \<and> save_stems env stems sr out (stem p) s5 = (Inr (), s6)
          \<and> s' = emit (Console ReadyForRemixing) (emit (Console (Success out)) s6))"
proof -
  define s2 where "s2 = emit (Console (Processing (name p))) (emit (CallExists p) s)"
  from ok have sup: "is_supported_format p" and ex: "path_exists env p"
    by (auto simp: split_audio_def Let_def split: if_splits)
  with ok out have body: "\<exists>u. split_audio_try env p out (stem p) s2 = (Inr u, s')"
    by (auto simp: split_audio_def Let_def s2_def split: prod.splits sum.splits)
  have run2: "run quiet s s2"
    unfolding s2_def by (intro run_emit run_refl) simp_all
  from split_audio_try_shape [of env p out "stem p" s2] body
  obtain m w sr stems s5 r s6 where
    *: "run quiet s2 s5" "files s5 = files s2" "dirs s5 = dirs s2"
       "fst (load_audio env p s2) = Inr (w, sr)"
       "apply_model env m w (device s2) = Inr stems"
       "save_stems env stems sr out (stem p) s5 = (r, s6)"
       "split_audio_try env p out (stem p) s2 =
          (case r of Inl e \<Rightarrow> (Inl e, s6)
           | Inr u \<Rightarrow> (Inr (), emit (Console ReadyForRemixing) (emit (Console (Success out)) s6)))"
    by auto
  from body *(7) have r: "r = Inr ()" and s': "s' = emit (Console ReadyForRemixing) (emit (Console (Success out)) s6)"
    by (auto split: sum.splits)
  have "run quiet s s5" using run_trans [OF run2 *(1)] .
  moreover have "files s5 = files s" "dirs s5 = dirs s" using *(2,3) by (simp_all add: s2_def)
  moreover have "fst (load_audio env p s) = Inr (w, sr)"
    using *(4) load_audio_fst [of env p s s2] by simp
  moreover have "apply_model env m w (device s) = Inr stems" using *(5) by (simp add: s2_def)
  moreover have "save_stems env stems sr out (stem p) s5 = (Inr (), s6)" using *(6) r by simp
  ultimately show ?thesis using sup ex s' by blast
qed

lemma split_audio_run:
  assumes run: "split_audio env p od s = (r, s')"
    and out: "out = (case od of None \<Rightarrow> joinpath (parent p) (stem p @ ''_stems'') | Some d \<Rightarrow> d)"
  shows "(\<exists>b. r = Inr b) \<and> run (job_event out (stem p)) s s'
     \<and> prefix (written_paths (new_events s s')) (stem_paths out (stem p))
     \<and> (r = Inr True \<longrightarrow> written_paths (new_events s s') = stem_paths out (stem p))"
proof -
  have quiet_case: "(\<exists>b. r0 = Inr b) \<and> run (job_event out (stem p)) s s0
     \<and> prefix (written_paths (new_events s s0)) (stem_paths out (stem p))
     \<and> (r0 = Inr True \<longrightarrow> written_paths (new_events s s0) = stem_paths out (stem p))"
    if "run quiet s s0" "r0 = Inr False" for r0 :: "exn + bool" and s0
  proof -
    from that(1) have "written_paths (new_events s s0) = []"
      using run_new_events written_paths_quiet by blast
    moreover from that(1) have "run (job_event out (stem p)) s s0"
      by (rule run_mono) (rule quiet_job_event)
    ultimately show ?thesis using that(2) by auto
  qed
  show ?thesis
  proof (cases "is_supported_format p \<and> path_exists env p")
    case False
    with run have "r = Inr False" "run quiet s s'"
      by (auto simp: split_audio_def Let_def intro!: run_emit run_refl split: if_splits)
    then show ?thesis using quiet_case by blast
  next
    case True
    define s2 where "s2 = emit (Console (Processing (name p))) (emit (CallExists p) s)"
    have run2: "run quiet s s2"
      unfolding s2_def by (intro run_emit run_refl) simp_all
    from run True out have res: "(r, s') =
        (case split_audio_try env p out (stem p) s2 of
           (Inr u, s3) \<Rightarrow> (Inr True, s3)
         | (Inl e, s3) \<Rightarrow> (Inr False, emit (LogError p e) (emit (Console (ErrorProcessing (name p) e)) s3)))"
      by (simp add: split_audio_def Let_def s2_def)
    from split_audio_try_shape [of env p out "stem p" s2]
    consider (early) e s3 where "split_audio_try env p out (stem p) s2 = (Inl e, s3)" "run quiet s2 s3"
      | (save) stems sr s5 r6 s6 where "run quiet s2 s5"
          "save_stems env stems sr out (stem p) s5 = (r6, s6)"
          "split_audio_try env p out (stem p) s2 =
            (case r6 of Inl e \<Rightarrow> (Inl e, s6)
             | Inr u \<Rightarrow> (Inr (), emit (Console ReadyForRemixing) (emit (Console (Success out)) s6)))"
      by blast
    then show ?thesis
    proof cases
      case early
      with res have "r = Inr False"
        "s' = emit (LogError p e) (emit (Console (ErrorProcessing (name p) e)) s3)"
        by simp_all
      moreover have "run quiet s s3" using run_trans [OF run2 early(2)] .
      ultimately have "run quiet s s'" by (auto intro!: run_emit)
      with \<open>r = Inr False\<close> show ?thesis using quiet_case by blast
    next
      case save
      have run5: "run quiet s s5" using run_trans [OF run2 save(1)] .
      then obtain evs0 where evs0: "trace s5 = trace s @ evs0" "\<forall>e \<in> set evs0. quiet e"
        by (auto simp: run_def)
      from save_stems_shape [OF save(2)] obtain evs where
        evs: "trace s6 = trace s5 @ evs" "\<forall>e \<in> set evs. job_event out (stem p) e"
          "prefix (written_paths evs) (stem_paths out (stem p))"
          "r6 = Inr () \<longrightarrow> written_paths evs = stem_paths out (stem p)"
        by blast
      obtain tl where tl: "trace s' = trace s6 @ tl" "\<forall>e \<in> set tl. quiet e"
        and r: "r = (case r6 of Inl e \<Rightarrow> Inr False | Inr u \<Rightarrow> Inr True)"
        using res save(3) by (cases r6) auto
      have tr: "trace s' = trace s @ (evs0 @ evs @ tl)"
        using evs0(1) evs(1) tl(1) by simp
      then have ne: "new_events s s' = evs0 @ evs @ tl"
        by (rule new_events_append)
      have wp: "written_paths (new_events s s') = written_paths evs"
        using ne evs0(2) tl(2) by (simp add: written_paths_quiet)
      have "run (job_event out (stem p)) s s'"
        unfolding run_def using tr evs0(2) evs(2) tl(2) by (auto intro: quiet_job_event)
      moreover have "\<exists>b. r = Inr b" using r by (cases r6) auto
      moreover have "r = Inr True \<longrightarrow> written_paths (new_events s s') = stem_paths out (stem p)"
        using r evs(4) wp by (cases r6) auto
      ultimately show ?thesis using evs(3) wp by simp
    qed
  qed
qed


lemma split_audio_True_files:
  assumes ok: "split_audio env p od s = (Inr True, s')"
    and out: "out = (case od of None \<Rightarrow> joinpath (parent p) (stem p @ ''_stems'') | Some d \<Rightarrow> d)"
    and wf: "CHR ''/'' \<notin> set (name p)"
  shows "\<exists>m w sr stems. fst (load_audio env p s) = Inr (w, sr)
     \<and> apply_model env m w (device s) = Inr stems
     \<and> out \<in> dirs s'
     \<and> (\<forall>(i, n) \<in> set stem_names. i < length stems
          \<and> CallSfWrite (stem_file out (stem p) n) (Wav (transpose (stems ! i)) sr ''PCM_24'')
               \<in> set (new_events s s')
          \<and> (sf_write_error env (stem_file out (stem p) n) = None \<longrightarrow>
               files s' (stem_file out (stem p) n) = Some (Wav (transpose (stems ! i)) sr ''PCM_24'')))
     \<and> (\<forall>q. q \<notin> set (stem_paths out (stem p)) \<longrightarrow> files s' q = files s q)"
proof -
  from split_audio_True [OF ok out] obtain m w sr stems s5 s6 where
    *: "run quiet s s5" "files s5 = files s" "dirs s5 = dirs s"
       "fst (load_audio env p s) = Inr (w, sr)"
       "apply_model env m w (device s) = Inr stems"
       "save_stems env stems sr out (stem p) s5 = (Inr (), s6)"
       "s' = emit (Console ReadyForRemixing) (emit (Console (Success out)) s6)"
    by blast
  from *(1) obtain evs0 where evs0: "trace s5 = trace s @ evs0"
    by (auto simp: run_def)
  from save_stems_shape [OF *(6)] obtain evs where
    evs: "trace s6 = trace s5 @ evs" "out \<in> dirs s6"
      "\<forall>(i, n) \<in> set stem_names. i < length stems
          \<and> CallSfWrite (stem_file out (stem p) n) (Wav (transpose (stems ! i)) sr ''PCM_24'') \<in> set evs"
    by blast
  have "trace s' = trace s @ (evs0 @ evs @ [Console (Success out), Console ReadyForRemixing])"
    using evs0 evs(1) *(7) by simp
  then have ne: "new_events s s' = evs0 @ evs @ [Console (Success out), Console ReadyForRemixing]"
    by (rule new_events_append)
  have dist: "distinct (stem_paths out (stem p))"
    using wf by (intro stem_paths_distinct stem_no_slash)
  have written: "files s' (stem_file out (stem p) n) = Some (Wav (transpose (stems ! i)) sr ''PCM_24'')"
    if "(i, n) \<in> set stem_names" "sf_write_error env (stem_file out (stem p) n) = None" for i n
    using save_stems_files [OF *(6) dist that] *(7) by simp
  have other: "files s' q = files s q" if "q \<notin> set (stem_paths out (stem p))" for q
    using save_stems_files_other [OF *(6) that] *(2,7) by simp
  have "out \<in> dirs s'" using evs(2) *(7) by simp
  moreover have "\<forall>(i, n) \<in> set stem_names. i < length stems
          \<and> CallSfWrite (stem_file out (stem p) n) (Wav (transpose (stems ! i)) sr ''PCM_24'')
               \<in> set (new_events s s')
          \<and> (sf_write_error env (stem_file out (stem p) n) = None \<longrightarrow>
               files s' (stem_file out (stem p) n) = Some (Wav (transpose (stems ! i)) sr ''PCM_24''))"
    using evs(3) ne written by fastforce
  ultimately show ?thesis using *(4,5) other by blast
qed


section \<open>Output of a successful job\<close>


lemma repeat_rows_2: "repeat_rows 2 w = w @ w"
  by (simp add: repeat_rows_def numeral_2_eq_2)

lemmas job_eval = split_audio_def split_audio_try_def load_model_def load_audio_def save_stems_def
  stem_names_def stem_file_def joinpath_def parse_parts_def make_child_def parent_def
  is_supported_format_def supported_formats_def shape0_def shape1_def repeat_rows_2
  studio_env_def fresh_def emit_def Let_def ancestors_def




subsection \<open>Write failures\<close>







section \<open>Naming of the output files\<close>

text \<open>
  Claim C8. For a fixed output directory the paths handed to \<^verbatim>\<open>sf.write\<close> depend on the
  input's base name only: whatever the environment and the state, they form an initial
  segment of the four paths \<^verbatim>\<open>{basename}_{stem}.wav\<close> in that directory, and all four for
  a run that returns \<^verbatim>\<open>True\<close>. A second successful run on an input with the same base
  name and the same output directory writes to the same four paths, and every write of it
  that does not fail replaces the file recorded at its path.
\<close>

theorem stem_paths_from_basename:
  "prefix (written_paths (new_events s (snd (split_audio env p (Some od) s)))) (stem_paths od (stem p))
   \<and> (split_audio env p (Some od) s = (Inr True, s1)
        \<and> split_audio env' p' (Some od) s1 = (Inr True, s2)
        \<and> stem p' = stem p \<and> CHR ''/'' \<notin> set (name p) \<and> CHR ''/'' \<notin> set (name p') \<longrightarrow>
          written_paths (new_events s s1) =
            [make_child od (stem p @ ''_drums.wav''), make_child od (stem p @ ''_bass.wav''),
             make_child od (stem p @ ''_other.wav''), make_child od (stem p @ ''_vocals.wav'')]
        \<and> written_paths (new_events s1 s2) = written_paths (new_events s s1)
        \<and> (\<forall>q \<in> set (written_paths (new_events s1 s2)). sf_write_error env' q = None \<longrightarrow>
              (\<exists>w. CallSfWrite q w \<in> set (new_events s1 s2) \<and> files s2 q = Some w)))"
proof (intro conjI impI)
  obtain r s' where run: "split_audio env p (Some od) s = (r, s')" by fastforce
  from split_audio_run [OF run, of od] run
  show "prefix (written_paths (new_events s (snd (split_audio env p (Some od) s)))) (stem_paths od (stem p))"
    by simp
next
  assume asm: "split_audio env p (Some od) s = (Inr True, s1)
        \<and> split_audio env' p' (Some od) s1 = (Inr True, s2)
        \<and> stem p' = stem p \<and> CHR ''/'' \<notin> set (name p) \<and> CHR ''/'' \<notin> set (name p')"
  then have run1: "split_audio env p (Some od) s = (Inr True, s1)"
    and run2: "split_audio env' p' (Some od) s1 = (Inr True, s2)"
    and same: "stem p' = stem p" and wf: "CHR ''/'' \<notin> set (name p)" and wf': "CHR ''/'' \<notin> set (name p')"
    by simp_all
  have od: "od = (case Some od of None \<Rightarrow> joinpath (parent x) (stem x @ ''_stems'') | Some d \<Rightarrow> d)" for x
    by simp
  have w1: "written_paths (new_events s s1) = stem_paths od (stem p)"
    using split_audio_run [OF run1 od] by simp
  have w2: "written_paths (new_events s1 s2) = stem_paths od (stem p)"
    using split_audio_run [OF run2 od] same by simp
  show "written_paths (new_events s s1) =
            [make_child od (stem p @ ''_drums.wav''), make_child od (stem p @ ''_bass.wav''),
             make_child od (stem p @ ''_other.wav''), make_child od (stem p @ ''_vocals.wav'')]"
    using w1 stem_paths_plain [OF stem_no_slash [OF wf]] by simp
  show "written_paths (new_events s1 s2) = written_paths (new_events s s1)"
    using w1 w2 by simp
  from split_audio_True_files [OF run2 od wf'] obtain stems sr where
    *: "\<forall>(i, n) \<in> set stem_names. i < length stems
          \<and> CallSfWrite (stem_file od (stem p') n) (Wav (transpose (stems ! i)) sr ''PCM_24'')
               \<in> set (new_events s1 s2)
          \<and> (sf_write_error env' (stem_file od (stem p') n) = None \<longrightarrow>
               files s2 (stem_file od (stem p') n) = Some (Wav (transpose (stems ! i)) sr ''PCM_24''))"
    by blast
  show "\<forall>q \<in> set (written_paths (new_events s1 s2)). sf_write_error env' q = None \<longrightarrow>
              (\<exists>w. CallSfWrite q w \<in> set (new_events s1 s2) \<and> files s2 q = Some w)"
  proof (intro ballI impI)
    fix q
    assume "q \<in> set (written_paths (new_events s1 s2))" and ok: "sf_write_error env' q = None"
    with w2 same have "q \<in> set (stem_paths od (stem p'))" by simp
    then obtain i n where "(i, n) \<in> set stem_names" "q = stem_file od (stem p') n"
      by (auto simp: stem_paths_def)
    with * ok show "\<exists>w. CallSfWrite q w \<in> set (new_events s1 s2) \<and> files s2 q = Some w"
      by fastforce
  qed
qed

theorem stem_paths_from_basename_witness:
  "split_audio studio_env (Path [] [''music'', ''e.flac'']) (Some (Path [] [''out''])) fresh =
     (Inr True, snd (split_audio studio_env (Path [] [''music'', ''e.flac'']) (Some (Path [] [''out''])) fresh))
   \<and> written_paths (new_events fresh
        (snd (split_audio studio_env (Path [] [''music'', ''e.flac'']) (Some (Path [] [''out''])) fresh))) =
       [Path [] [''out'', ''e_drums.wav''], Path [] [''out'', ''e_bass.wav''],
        Path [] [''out'', ''e_other.wav''], Path [] [''out'', ''e_vocals.wav'']]
   \<and> written_paths (new_events
        (snd (split_audio studio_env (Path [] [''music'', ''e.flac'']) (Some (Path [] [''out''])) fresh))
        (snd (split_audio studio_env (Path [] [''music'', ''e.flac'']) (Some (Path [] [''out'']))
           (snd (split_audio studio_env (Path [] [''music'', ''e.flac'']) (Some (Path [] [''out''])) fresh))))) =
       [Path [] [''out'', ''e_drums.wav''], Path [] [''out'', ''e_bass.wav''],
        Path [] [''out'', ''e_other.wav''], Path [] [''out'', ''e_vocals.wav'']]"
proof -
  let ?p = "Path [] [''music'', ''e.flac'']"
  let ?od = "Path [] [''out'']"
  let ?s1 = "snd (split_audio studio_env ?p (Some ?od) fresh)"
  let ?s2 = "snd (split_audio studio_env ?p (Some ?od) ?s1)"
  have "fst (split_audio studio_env ?p (Some ?od) fresh) = Inr True"
    by (simp add: job_eval path_eval)
  then have h1: "split_audio studio_env ?p (Some ?od) fresh = (Inr True, ?s1)"
    by (metis prod.collapse)
  have "fst (split_audio studio_env ?p (Some ?od) ?s1) = Inr True"
    by (simp add: job_eval path_eval)
  then have h2: "split_audio studio_env ?p (Some ?od) ?s1 = (Inr True, ?s2)"
    by (metis prod.collapse)
  have h3: "stem ?p = stem ?p \<and> CHR ''/'' \<notin> set (name ?p) \<and> CHR ''/'' \<notin> set (name ?p)"
    by (simp add: name_def)
  from stem_paths_from_basename [where env = studio_env and env' = studio_env and p = ?p and p' = ?p
      and od = ?od and s = fresh and ?s1.0 = ?s1 and ?s2.0 = ?s2] h1 h2 h3
  have "written_paths (new_events fresh ?s1) =
            [make_child ?od (stem ?p @ ''_drums.wav''), make_child ?od (stem ?p @ ''_bass.wav''),
             make_child ?od (stem ?p @ ''_other.wav''), make_child ?od (stem ?p @ ''_vocals.wav'')]
        \<and> written_paths (new_events ?s1 ?s2) = written_paths (new_events fresh ?s1)"
    by blast
  then show ?thesis using h1
    by (simp add: make_child_def path_eval)
qed

section \<open>Properties of the batch job\<close>

subsection \<open>Enumeration\<close>

lemma find_audio_files_fst:
  "fst (find_audio_files env d exts acc s) =
     acc @ concat (map (\<lambda>ext. glob_star env d ext @ glob_star env d (upper ext)) exts)"
  by (induction exts arbitrary: acc s) (simp_all add: Let_def)




lemmas str_eval = lower_def upper_def lower_char_def upper_char_def upper_letters_def lower_letters_def

lemma upper_formats:
  "upper ''.mp3'' = ''.MP3''" "upper ''.wav'' = ''.WAV''" "upper ''.flac'' = ''.FLAC''"
  "upper ''.m4a'' = ''.M4A''" "upper ''.aac'' = ''.AAC''" "upper ''.ogg'' = ''.OGG''"
  "upper ''.wma'' = ''.WMA''"
  by (simp_all add: str_eval)

lemma supported_dot_pattern:
  "e \<in> supported_formats \<Longrightarrow> dot_pattern e \<and> dot_pattern (upper e) \<and> upper e \<noteq> e"
  by (auto simp: supported_formats_def dot_pattern_def upper_formats)








subsection \<open>The loop over the files\<close>



lemma batch_items_simps [simp]:
  "batch_items [] = []"
  "batch_items (xs @ ys) = batch_items xs @ batch_items ys"
  "batch_items (Console (BatchItem k n) # xs) = (k, n) # batch_items xs"
  by (simp_all add: batch_items_def)



lemma job_event_batch_event:
  "f \<in> set fs \<Longrightarrow> job_event (joinpath od (stem f)) (stem f) e \<Longrightarrow> batch_event od fs e"
  by (auto simp: batch_event_def)



subsection \<open>The batch\<close>






subsection \<open>Suffixes of matched names\<close>

lemma rfind_aux_absent: "c \<notin> set ys \<Longrightarrow> rfind_aux c ys i found = found"
  by (induction ys arbitrary: i) auto

lemma rfind_aux_last:
  "c \<notin> set ys \<Longrightarrow> rfind_aux c (xs @ c # ys) i found = i + int (length xs)"
  by (induction xs arbitrary: i found) (auto simp: rfind_aux_absent)

lemma suffix_of_matched:
  assumes "dot_pattern P" "suffix P n"
  shows "n = P \<and> suffix_of n = [] \<or> suffix_of n = P"
proof -
  from assms(1) obtain body where P: "P = CHR ''.'' # body" "body \<noteq> []" "CHR ''.'' \<notin> set body"
    by (auto simp: dot_pattern_def split: list.splits)
  from assms(2) obtain pre where n: "n = pre @ P"
    by (auto simp: suffix_def)
  have rf: "rfind n (CHR ''.'') = int (length pre)"
    using P(3) by (simp add: rfind_def n P(1) rfind_aux_last)
  show ?thesis
  proof (cases "pre = []")
    case True
    with rf n show ?thesis by (simp add: suffix_of_def)
  next
    case False
    with rf n P(1,2) have "suffix_of n = P"
      by (simp add: suffix_of_def)
    then show ?thesis by simp
  qed
qed

lemma name_make_child [simp]: "name (make_child d n) = n"
  by (simp add: name_def make_child_def)

lemma make_child_inject [simp]: "make_child d n = make_child d n' \<longleftrightarrow> n = n'"
  by (simp add: make_child_def)

lemma enumerated_member:
  "f \<in> set (fst (find_audio_files env d (formats_order env) [] s)) \<longleftrightarrow>
     (\<exists>n \<in> set (listdir env d). f = make_child d n
        \<and> (\<exists>e \<in> set (formats_order env). suffix e n \<or> suffix (upper e) n))"
  by (auto simp: find_audio_files_fst glob_star_def)

text \<open>
  Claim C10. Every path that \<^verbatim>\<open>batch_split\<close> enumerates is a directory entry whose name
  ends with a supported extension in its all-lowercase or its all-uppercase form. So an
  entry that the format gate accepts, but whose extension is neither form (mixed case, as
  in \<^verbatim>\<open>.Mp3\<close>), is not enumerated.
\<close>

theorem mixed_case_extension_skipped:
  assumes "order_ok env"
  shows "(\<forall>f \<in> set (fst (find_audio_files env d (formats_order env) [] s)).
            \<exists>n \<in> set (listdir env d). f = make_child d n
              \<and> (\<exists>e \<in> supported_formats. suffix e n \<or> suffix (upper e) n))
     \<and> (is_supported_format (make_child d n)
          \<and> path_suffix (make_child d n) \<notin> supported_formats
          \<and> path_suffix (make_child d n) \<notin> upper ` supported_formats
        \<longrightarrow> make_child d n \<notin> set (fst (find_audio_files env d (formats_order env) [] s)))"
proof (intro conjI ballI impI)
  fix f
  assume "f \<in> set (fst (find_audio_files env d (formats_order env) [] s))"
  with assms show "\<exists>n \<in> set (listdir env d). f = make_child d n
              \<and> (\<exists>e \<in> supported_formats. suffix e n \<or> suffix (upper e) n)"
    by (auto simp: enumerated_member order_ok_def)
next
  assume a: "is_supported_format (make_child d n)
          \<and> path_suffix (make_child d n) \<notin> supported_formats
          \<and> path_suffix (make_child d n) \<notin> upper ` supported_formats"
  show "make_child d n \<notin> set (fst (find_audio_files env d (formats_order env) [] s))"
  proof
    assume "make_child d n \<in> set (fst (find_audio_files env d (formats_order env) [] s))"
    then obtain e where e: "e \<in> set (formats_order env)" "suffix e n \<or> suffix (upper e) n"
      by (auto simp: enumerated_member)
    with assms have sup: "e \<in> supported_formats" by (simp add: order_ok_def)
    from e(2) obtain P where P: "P = e \<or> P = upper e" "suffix P n" by blast
    with supported_dot_pattern [OF sup] have "dot_pattern P" by auto
    from suffix_of_matched [OF this P(2)]
    have "suffix_of n = [] \<or> suffix_of n = P" by blast
    then show False
    proof
      assume "suffix_of n = []"
      with a show False
        by (simp add: is_supported_format_def path_suffix_def lower_def supported_formats_def)
    next
      assume "suffix_of n = P"
      with a P(1) sup show False
        by (auto simp: path_suffix_def)
    qed
  qed
qed

theorem mixed_case_extension_skipped_witness:
  "order_ok studio_env
   \<and> ''b.Mp3'' \<in> set (listdir studio_env (Path [] [''music'']))
   \<and> is_supported_format (Path [] [''music'', ''b.Mp3''])
   \<and> path_suffix (Path [] [''music'', ''b.Mp3'']) = ''.Mp3''
   \<and> Path [] [''music'', ''b.Mp3''] \<notin>
       set (fst (find_audio_files studio_env (Path [] [''music'']) (formats_order studio_env) [] fresh))"
proof -
  let ?d = "Path [] [''music'']"
  have order: "order_ok studio_env"
    by (auto simp: order_ok_def studio_env_def supported_formats_def)
  have mc: "make_child ?d ''b.Mp3'' = Path [] [''music'', ''b.Mp3'']"
    by (simp add: make_child_def)
  have sup: "is_supported_format (Path [] [''music'', ''b.Mp3''])"
    by (simp add: is_supported_format_def supported_formats_def path_eval)
  have suf: "path_suffix (Path [] [''music'', ''b.Mp3'']) = ''.Mp3''"
    by (simp add: path_eval)
  have notin: "''.Mp3'' \<notin> supported_formats" "''.Mp3'' \<notin> upper ` supported_formats"
    by (simp_all add: supported_formats_def upper_formats)
  from mixed_case_extension_skipped [OF order, of ?d fresh "''b.Mp3''"] mc sup suf notin
  have "Path [] [''music'', ''b.Mp3''] \<notin>
       set (fst (find_audio_files studio_env ?d (formats_order studio_env) [] fresh))"
    by simp
  then show ?thesis using order sup suf by (simp add: studio_env_def)
qed

section \<open>Default output directories\<close>






end
